theory Spec2Isabelle
  imports Complex_Main "HOL-Library.Sublist" "HOL-Library.Multiset"
begin

section \<open>Shared Python primitives\<close>

text \<open>
  Strings are byte strings. \<open>str.lower\<close> and \<open>str.upper\<close> are modelled on the ASCII
  letters, every other character is left unchanged.
\<close>

definition lower_char :: "char \<Rightarrow> char" where
  "lower_char c =
     (let n = (of_char c :: nat) in if 65 \<le> n \<and> n \<le> 90 then char_of (n + 32) else c)"

definition upper_char :: "char \<Rightarrow> char" where
  "upper_char c =
     (let n = (of_char c :: nat) in if 97 \<le> n \<and> n \<le> 122 then char_of (n - 32) else c)"

definition lower :: "string \<Rightarrow> string" where
  "lower s = map lower_char s"

definition upper :: "string \<Rightarrow> string" where
  "upper s = map upper_char s"

text \<open>
  \<open>n * [x]\<close> for a Python int \<open>n\<close>: the list of \<open>n\<close> copies of \<open>x\<close>, empty when
  \<open>n\<close> is negative.
\<close>

definition py_repeat :: "int \<Rightarrow> 'a \<Rightarrow> 'a list" where
  "py_repeat n x = replicate (nat n) x"

text \<open>
  \<open>int(a / b)\<close> for ints \<open>a\<close> and \<open>b\<close> with \<open>b\<close> not zero: the quotient, taken
  exactly, truncated toward zero.
\<close>

definition int_of_quotient :: "int \<Rightarrow> int \<Rightarrow> int" where
  "int_of_quotient a b = sgn a * sgn b * (\<bar>a\<bar> div \<bar>b\<bar>)"


text \<open>
  \<open>str(n)\<close> for a Python int: the decimal digits, with a minus sign when negative.
\<close>

fun show_nat :: "nat \<Rightarrow> string" where
  "show_nat n =
     (if n < 10 then [''0123456789'' ! n]
      else show_nat (n div 10) @ [''0123456789'' ! (n mod 10)])"

declare show_nat.simps [simp del]

definition show_int :: "int \<Rightarrow> string" where
  "show_int i = (if i < 0 then ''-'' @ show_nat (nat (- i)) else show_nat (nat i))"

text \<open>\<open>sep.join(xs)\<close>.\<close>

fun py_join :: "string \<Rightarrow> string list \<Rightarrow> string" where
  "py_join sep [] = []"
| "py_join sep [x] = x"
| "py_join sep (x # y # ys) = x @ sep @ py_join sep (y # ys)"

text \<open>
  A text of which any character matters is the list of its Unicode code points;
  \<open>ustr\<close> gives the text of an ASCII literal.
\<close>

type_synonym ustring = "nat list"

definition ustr :: "string \<Rightarrow> ustring" where
  "ustr s = map of_char s"

text \<open>
  \<open>s.strip()\<close>: leading and trailing whitespace removed. Whitespace is every code
  point for which \<open>str.isspace\<close> holds: U+0009 to U+000D, U+001C to U+0020, U+0085,
  U+00A0, U+1680, U+2000 to U+200A, U+2028, U+2029, U+202F, U+205F and U+3000.
\<close>

definition is_space :: "nat \<Rightarrow> bool" where
  "is_space c =
     ((9 \<le> c \<and> c \<le> 13) \<or> (28 \<le> c \<and> c \<le> 32) \<or> c = 133 \<or> c = 160 \<or> c = 5760
      \<or> (8192 \<le> c \<and> c \<le> 8202) \<or> c = 8232 \<or> c = 8233 \<or> c = 8239 \<or> c = 8287
      \<or> c = 12288)"

definition strip :: "ustring \<Rightarrow> ustring" where
  "strip s = rev (dropWhile is_space (rev (dropWhile is_space s)))"

text \<open>The exceptions the modelled functions raise.\<close>

datatype py_error =
    SystemExit string
  | IndexError
  | ZeroDivisionError


section \<open>compute.py: the geometry-optimisation schedule of FullRelaxer\<close>

text \<open>
  The fields of \<open>calc_doc\<close> that \<open>FullRelaxer.__init__\<close> reads when it sets up a
  geometry optimisation: \<open>geom_max_iter\<close> (after \<open>int(...)\<close>) and the optional
  \<open>geom_method\<close>.
\<close>

record calc_doc =
  geom_max_iter :: int
  geom_method :: "string option"

definition num_rough_iter :: "int option \<Rightarrow> int" where
  "num_rough_iter rough = (case rough of Some r \<Rightarrow> r | None \<Rightarrow> 4)"

definition rough_iter :: "calc_doc \<Rightarrow> int" where
  "rough_iter d =
     (case geom_method d of
        Some m \<Rightarrow> if lower m = ''tpsd'' then 3 else 2
      | None \<Rightarrow> 2)"

definition geom_max_iter_list :: "int option \<Rightarrow> calc_doc \<Rightarrow> int list" where
  "geom_max_iter_list rough d =
     (let max_iter = geom_max_iter d;
          fine_iter = 20;
          num_fine_iter = int_of_quotient max_iter fine_iter
      in py_repeat (num_rough_iter rough) (rough_iter d) @ py_repeat num_fine_iter fine_iter)"


section \<open>refine.py: the argument checks of the Refiner constructor\<close>

definition possible_tasks :: "string list" where
  "possible_tasks = [''sym'', ''spg'', ''substruc'', ''sub'', ''ratios'', ''remove'']"

definition possible_modes :: "string list" where
  "possible_modes = [''display'', ''overwrite'', ''set'']"

text \<open>
  What the constructor has fixed when its checks are passed: the collection handle, the
  mode in force and the task that is dispatched next (to \<open>symmetry\<close>, \<open>substruc\<close> or
  \<open>ratios\<close>; \<open>remove\<close> dispatches nothing), with both counters at zero. The handle is
  opaque, so its type is a parameter.
\<close>

record 'c refiner =
  collection :: "'c option"
  mode :: string
  task :: string
  changed_count :: nat
  failed_count :: nat

definition Refiner_init :: "'c option \<Rightarrow> string option \<Rightarrow> string \<Rightarrow> py_error + 'c refiner" where
  "Refiner_init coll tsk md =
     (let md' = (if md \<notin> set possible_modes then ''display'' else md)
      in if coll = None \<and> md' \<in> set [''overwrite'', ''set'']
         then Inl (SystemExit ''Impossible to overwite or set without db collection, exiting...'')
         else (case tsk of
                 None \<Rightarrow> Inl (SystemExit ''No specified task, exiting...'')
               | Some t \<Rightarrow>
                   if t \<notin> set possible_tasks
                   then Inl (SystemExit (''Did not understand task, please choose one of ''
                                          @ py_join '', '' possible_tasks))
                   else Inr \<lparr>collection = coll, mode = md', task = t,
                             changed_count = 0, failed_count = 0\<rparr>))"


section \<open>print_utils.py: stoich2tex\<close>

text \<open>
  A stoichiometry is a list of \<open>[symbol, count]\<close> pairs. A count is a Python int or
  float and is modelled by its exact value. A count with an integral value is printed as
  that integer; the text Python prints for any other float is not modelled and is the
  parameter \<open>float_str\<close>.
\<close>

type_synonym stoich = "(string \<times> rat) list"

definition is_integer :: "rat \<Rightarrow> bool" where
  "is_integer c = (of_int \<lfloor>c\<rfloor> = c)"

definition format_count :: "(rat \<Rightarrow> string) \<Rightarrow> rat \<Rightarrow> string" where
  "format_count float_str c = (if is_integer c then show_int \<lfloor>c\<rfloor> else float_str c)"

text \<open>The loop of \<open>stoich2tex\<close>, with \<open>list_tex\<close> as the accumulator.\<close>

fun stoich2tex_loop :: "(rat \<Rightarrow> string) \<Rightarrow> stoich \<Rightarrow> string list \<Rightarrow> string list" where
  "stoich2tex_loop float_str [] list_tex = list_tex"
| "stoich2tex_loop float_str ((symbol, cnt) # s) list_tex =
     (let l1 = (if cnt > 0 then list_tex @ [symbol] else list_tex);
          l2 = (if cnt \<noteq> 1 then l1 @ [''_{'' @ format_count float_str cnt @ ''}''] else l1)
      in stoich2tex_loop float_str s l2)"

definition stoich2tex :: "(rat \<Rightarrow> string) \<Rightarrow> stoich \<Rightarrow> string" where
  "stoich2tex float_str s = ''$'' @ concat (stoich2tex_loop float_str s []) @ ''$''"

text \<open>
  The contribution of one pair as the specification words it: the symbol exactly when the
  count is positive, then the subscript group exactly when the count is not 1.
\<close>

definition tex_of_pair :: "(rat \<Rightarrow> string) \<Rightarrow> string \<times> rat \<Rightarrow> string" where
  "tex_of_pair float_str e =
     (if snd e > 0 then fst e else [])
     @ (if snd e \<noteq> 1 then ''_{'' @ format_count float_str (snd e) @ ''}'' else [])"


section \<open>spatula.py: the quality score of struct2db\<close>

text \<open>
  The fields of a structure document that \<open>struct2db\<close> reads and writes. \<open>species_pot\<close>
  may be absent; when present it is a dictionary from element symbols to
  pseudopotential strings.
\<close>

record struct =
  stoichiometry :: stoich
  species_pot :: "(string \<rightharpoonup> string) option"
  text_id :: "ustring list option"
  tags :: "string list option"
  quality :: "int option"

definition is_OTF :: "string \<Rightarrow> bool" where
  "is_OTF pspot = sublist ''OTF'' (upper pspot)"

text \<open>
  The loop over the stoichiometry, started with the score at 5: a missing pseudopotential
  sets the score to 0 and leaves the loop.
\<close>

fun quality_loop :: "(string \<rightharpoonup> string) \<Rightarrow> stoich \<Rightarrow> int \<Rightarrow> int" where
  "quality_loop pot [] q = q"
| "quality_loop pot (elem # rest) q =
     (case pot (fst elem) of
        None \<Rightarrow> 0
      | Some pspot \<Rightarrow> quality_loop pot rest (if is_OTF pspot then q - 1 else q))"

definition struct_quality :: "struct \<Rightarrow> int" where
  "struct_quality s =
     (case species_pot s of
        None \<Rightarrow> 0
      | Some pot \<Rightarrow> quality_loop pot (stoichiometry s) 5)"

text \<open>
  The importer's state that \<open>struct2db\<close> uses: the run-wide tags (when the tag
  dictionary has them) and the repository, as the list of inserted documents. The two
  lines drawn at random from the word lists are arguments.
\<close>

record spatula =
  tag_dict_tags :: "string list option"
  repo :: "struct list"

definition struct2db :: "spatula \<Rightarrow> ustring \<Rightarrow> ustring \<Rightarrow> struct \<Rightarrow> spatula \<times> nat" where
  "struct2db sp wline nline s =
     (let s1 = s\<lparr>text_id := Some [strip wline, strip nline]\<rparr>;
          s2 = (case tag_dict_tags sp of Some t \<Rightarrow> s1\<lparr>tags := Some t\<rparr> | None \<Rightarrow> s1);
          s3 = s2\<lparr>quality := Some (struct_quality s2)\<rparr>
      in (sp\<lparr>repo := repo sp @ [s3]\<rparr>, 1))"

text \<open>The document that the last insertion stored.\<close>

definition stored :: "spatula \<times> nat \<Rightarrow> struct" where
  "stored r = last (repo (fst r))"


section \<open>hull.py: enthalpy and volume per unit of B in hull_2d\<close>

text \<open>
  The documents of the cursor are stored structure documents with the thermodynamic
  fields that \<open>hull_2d\<close> reads (\<open>num_fu\<close>, \<open>enthalpy\<close>, \<open>cell_volume\<close>) and the two fields it
  sets. Numbers are modelled by their exact values.
\<close>

record hull_doc = struct +
  num_fu :: rat
  enthalpy :: rat
  cell_volume :: rat
  enthalpy_per_b :: "rat option"
  cell_volume_per_b :: "rat option"

text \<open>
  The two nested loops that count the atoms of type B: for every element of the
  stoichiometry, and every chemical potential of \<open>one_minus_x_elem\<close> with its index, the
  count is added at that index when the symbols agree.
\<close>

fun nums_b_inner :: "string \<times> rat \<Rightarrow> (nat \<times> string) list \<Rightarrow> rat list \<Rightarrow> rat list" where
  "nums_b_inner elem [] nums_b = nums_b"
| "nums_b_inner elem ((chem_pot_ind, chem_pot) # rest) nums_b =
     nums_b_inner elem rest
       (if fst elem = chem_pot
        then nums_b[chem_pot_ind := nums_b ! chem_pot_ind + snd elem]
        else nums_b)"

fun nums_b_loop :: "stoich \<Rightarrow> string list \<Rightarrow> rat list \<Rightarrow> rat list" where
  "nums_b_loop [] one_minus_x_elem nums_b = nums_b"
| "nums_b_loop (elem # rest) one_minus_x_elem nums_b =
     nums_b_loop rest one_minus_x_elem
       (nums_b_inner elem (enumerate 0 one_minus_x_elem) nums_b)"

definition num_b :: "string list \<Rightarrow> hull_doc \<Rightarrow> rat" where
  "num_b one_minus_x_elem doc =
     sum_list (nums_b_loop (stoichiometry doc) one_minus_x_elem
                 (replicate (length one_minus_x_elem) 0))"

text \<open>\<open>a / b\<close> on Python numbers raises ZeroDivisionError when \<open>b\<close> is zero.\<close>

definition py_truediv :: "rat \<Rightarrow> rat \<Rightarrow> py_error + rat" where
  "py_truediv a b = (if b = 0 then Inl ZeroDivisionError else Inr (a / b))"

text \<open>The value \<open>12345e5\<close>.\<close>

definition sentinel :: rat where
  "sentinel = 1234500000"

text \<open>The body of the loop over the cursor for one document, when the hull is not ternary.\<close>

definition per_b :: "string list \<Rightarrow> hull_doc \<Rightarrow> py_error + hull_doc" where
  "per_b one_minus_x_elem doc =
     (let nb = num_b one_minus_x_elem doc;
          nfu = num_fu doc
      in if nb = 0
         then Inr (doc\<lparr>enthalpy_per_b := Some sentinel, cell_volume_per_b := Some sentinel\<rparr>)
         else (case py_truediv (enthalpy doc) (nb * nfu) of
                 Inl e \<Rightarrow> Inl e
               | Inr h \<Rightarrow>
                   (case py_truediv (cell_volume doc) (nb * nfu) of
                      Inl e \<Rightarrow> Inl e
                    | Inr v \<Rightarrow> Inr (doc\<lparr>enthalpy_per_b := Some h, cell_volume_per_b := Some v\<rparr>))))"

text \<open>
  The loop over the cursor, as far as the per-B fields go: the first exception ends it.
\<close>

fun hull_2d_per_b :: "bool \<Rightarrow> string list \<Rightarrow> hull_doc list \<Rightarrow> py_error + hull_doc list" where
  "hull_2d_per_b ternary one_minus_x_elem [] = Inr []"
| "hull_2d_per_b ternary one_minus_x_elem (doc # cursor) =
     (case (if \<not> ternary then per_b one_minus_x_elem doc else Inr doc) of
        Inl e \<Rightarrow> Inl e
      | Inr doc' \<Rightarrow>
          (case hull_2d_per_b ternary one_minus_x_elem cursor of
             Inl e \<Rightarrow> Inl e
           | Inr cursor' \<Rightarrow> Inr (doc' # cursor')))"

text \<open>
  The number of atoms of type B that a stoichiometry holds, as the sum over its entries
  of the count, once for every place that the symbol has in \<open>one_minus_x_elem\<close>.
\<close>

definition atoms_of_b :: "string list \<Rightarrow> stoich \<Rightarrow> rat" where
  "atoms_of_b one_minus_x_elem st =
     sum_list (map (\<lambda>e. snd e * of_nat (count_list one_minus_x_elem (fst e))) st)"


section \<open>hull.py: the binary case of voltage_curve\<close>

text \<open>
  The arrays that the binary case reads from the hull cursor have one entry per
  structure: the numbers of intercalated ions \<open>x\<close>, the gravimetric capacities \<open>Q\<close> and
  the enthalpies per atom of type B. Numbers are modelled by their exact values.
\<close>

text \<open>\<open>a[idx]\<close> for an array of indices.\<close>

definition np_take :: "'a list \<Rightarrow> nat list \<Rightarrow> 'a list" where
  "np_take a idx = map (\<lambda>i. a ! i) idx"

text \<open>
  \<open>np.argsort\<close> gives some permutation of the indices that sorts the array; which one
  it gives among equal entries is left open, so the permutation is an argument of the
  model, constrained by this predicate.
\<close>

definition is_argsort :: "nat list \<Rightarrow> rat list \<Rightarrow> bool" where
  "is_argsort order x = (sort order = [0..<length x] \<and> sorted (np_take x order))"

text \<open>
  \<open>np.unique(x, return_index=True)\<close>: the sorted distinct values, each with the index of
  its first occurrence.
\<close>

definition first_index :: "rat list \<Rightarrow> rat \<Rightarrow> nat" where
  "first_index x v = length (takeWhile (\<lambda>y. y \<noteq> v) x)"

definition np_unique :: "rat list \<Rightarrow> rat list \<times> nat list" where
  "np_unique x = (let u = sort (remdups x) in (u, map (first_index x) u))"

text \<open>\<open>a[i]\<close> for an int \<open>i\<close>: a negative index counts from the end.\<close>

definition nth_wrap :: "'a list \<Rightarrow> int \<Rightarrow> 'a" where
  "nth_wrap a i = a ! nat (if i < 0 then int (length a) + i else i)"

text \<open>The loop that appends one voltage for every index, with \<open>V\<close> as the accumulator.\<close>

fun voltage_loop :: "rat list \<Rightarrow> rat list \<Rightarrow> rat \<Rightarrow> nat list \<Rightarrow> rat list \<Rightarrow> rat list" where
  "voltage_loop H x mu [] V = V"
| "voltage_loop H x mu (i # rest) V =
     voltage_loop H x mu rest
       (V @ [- (nth_wrap H (int i) - nth_wrap H (int i - 1))
               / (nth_wrap x (int i) - nth_wrap x (int i - 1)) + mu])"

text \<open>The variables \<open>x\<close> and \<open>stable_enthalpy_per_b\<close> after sorting and de-duplication.\<close>

definition unique_x :: "rat list \<Rightarrow> rat list" where
  "unique_x x = fst (np_unique (sort x))"

definition stable_enthalpy_per_b :: "nat list \<Rightarrow> rat list \<Rightarrow> rat list \<Rightarrow> rat list" where
  "stable_enthalpy_per_b order x H = np_take (np_take H order) (snd (np_unique (sort x)))"

text \<open>
  The binary case: the voltages, capacities and ion counts that it stores. \<open>V[0] = V[1]\<close>
  raises IndexError when \<open>V\<close> has fewer than two entries.
\<close>

definition voltage_curve ::
  "nat list \<Rightarrow> rat list \<Rightarrow> rat list \<Rightarrow> rat list \<Rightarrow> rat
     \<Rightarrow> py_error + (rat list \<times> rat list \<times> rat list)" where
  "voltage_curve order x Q H mu =
     (let Q1 = np_take Q order;
          H1 = stable_enthalpy_per_b order x H;
          x1 = unique_x x;
          Q2 = np_take Q1 (snd (np_unique (sort x)));
          V = voltage_loop H1 x1 mu [0..<length x1] []
      in if length V < 2 then Inl IndexError
         else Inr ((V[0 := V ! 1])[length V - 1 := 0], Q2, x1))"

text \<open>The voltage between the compositions \<open>i - 1\<close> and \<open>i\<close>, as the specification gives it.\<close>

definition step_voltage :: "rat list \<Rightarrow> rat list \<Rightarrow> rat \<Rightarrow> nat \<Rightarrow> rat" where
  "step_voltage H x mu i = - (H ! i - H ! (i - 1)) / (x ! i - x ! (i - 1)) + mu"


section \<open>batch.py: the collection of worker results in BatchRun.spawn\<close>

text \<open>
  An exception class is modelled by its name and by what calling it with one string
  does: \<open>init_error\<close> is \<open>None\<close> when the call builds an instance, and otherwise the
  class name and the text of the exception that the call raises (a TypeError for a
  class whose constructor does not take one string).
\<close>

datatype exc_class = ExcClass (class_name: string) (init_error: "(string \<times> string) option")

text \<open>
  Every worker puts one pair on the shared queue: its process id with either the
  exception it raised (its class and the text that \<open>str\<close> gives for it) or the number
  of jobs it ran.
\<close>

datatype payload = Exception exc_class string | JobCount nat

type_synonym result = "nat \<times> payload"

text \<open>An entry of the list \<open>errors\<close>: the process id, the class and the text of the exception.\<close>

type_synonym error = "nat \<times> exc_class \<times> string"

text \<open>
  What a call of \<open>spawn\<close> does in the end: it returns, it raises one exception (class
  name and message), or it waits forever on the queue.
\<close>

datatype outcome = Returns | Raises string string | Blocks

text \<open>
  The loop that takes one result per process from the queue and keeps those that are
  exceptions. The queue is the list of results in the order in which they arrive; \<open>get\<close>
  on a queue that receives nothing more never returns.
\<close>

fun collect_errors :: "nat \<Rightarrow> result list \<Rightarrow> error list \<Rightarrow> error list option" where
  "collect_errors 0 queue errors = Some errors"
| "collect_errors (Suc n) [] errors = None"
| "collect_errors (Suc n) ((proc_id, Exception c m) # queue) errors =
     collect_errors n queue (errors @ [(proc_id, c, m)])"
| "collect_errors (Suc n) ((proc_id, JobCount k) # queue) errors =
     collect_errors n queue errors"

fun error_message_loop :: "error list \<Rightarrow> string \<Rightarrow> string" where
  "error_message_loop [] error_message = error_message"
| "error_message_loop ((proc_id, c, m) # errors) error_message =
     error_message_loop errors
       (error_message @ ''Process '' @ show_nat proc_id @ '' raised error '' @ m @ ''. '')"

text \<open>
  \<open>raise type(errors[0][1])(error_message)\<close>: the class is called with the message, and
  the instance is raised when the call builds one; otherwise the exception of the call
  is what is raised.
\<close>

definition raise_same_type :: "exc_class \<Rightarrow> string \<Rightarrow> outcome" where
  "raise_same_type c error_message =
     (case init_error c of
        None \<Rightarrow> Raises (class_name c) error_message
      | Some (k, text) \<Rightarrow> Raises k text)"

text \<open>
  The parent's part of \<open>spawn\<close> after the processes are started. The handler of the
  \<open>try\<close> block joins and terminates the processes and raises the same exception again,
  so the exception raised inside is the one that leaves \<open>spawn\<close>.
\<close>

definition spawn :: "nat \<Rightarrow> result list \<Rightarrow> outcome" where
  "spawn nprocesses error_queue =
     (case collect_errors nprocesses error_queue [] of
        None \<Rightarrow> Blocks
      | Some errors \<Rightarrow>
          if errors \<noteq> [] then
            (let error_message = error_message_loop errors []
             in if card (set (map (\<lambda>error. fst (snd error)) errors)) = 1
                then raise_same_type (fst (snd (errors ! 0))) error_message
                else Raises ''BundledErrors'' error_message)
          else Returns)"

text \<open>The description of one worker's failure, as the message holds it.\<close>

definition describe :: "error \<Rightarrow> string" where
  "describe e =
     ''Process '' @ show_nat (fst e) @ '' raised error '' @ snd (snd e) @ ''. ''"

text \<open>
  The exceptions among the first \<open>nprocesses\<close> results of the queue, in the order of
  their arrival.
\<close>

fun as_error :: "result \<Rightarrow> error list" where
  "as_error (proc_id, Exception c m) = [(proc_id, c, m)]"
| "as_error (proc_id, JobCount k) = []"

definition reported :: "nat \<Rightarrow> result list \<Rightarrow> error list" where
  "reported nprocesses error_queue = concat (map as_error (take nprocesses error_queue))"

text \<open>
  \<open>UnicodeDecodeError\<close>, whose constructor takes five arguments, and \<open>RuntimeError\<close>, whose
  constructor takes any.
\<close>

definition UnicodeDecodeError :: exc_class where
  "UnicodeDecodeError =
     ExcClass ''UnicodeDecodeError''
       (Some (''TypeError'', ''function takes exactly 5 arguments (1 given)''))"

definition RuntimeError :: exc_class where
  "RuntimeError = ExcClass ''RuntimeError'' None"


section \<open>batch.py: reset_job_folder\<close>

text \<open>
  The current directory is the list of its regular files, each with its name and its
  text (the content as decoded on reading), in the order in which the directory lists
  them.
\<close>

type_synonym dir = "(ustring \<times> ustring) list"

definition isfile :: "dir \<Rightarrow> ustring \<Rightarrow> bool" where
  "isfile d name = (name \<in> set (map fst d))"

definition os_remove :: "ustring \<Rightarrow> dir \<Rightarrow> dir" where
  "os_remove name d = filter (\<lambda>entry. fst entry \<noteq> name) d"

definition read_file :: "dir \<Rightarrow> ustring \<Rightarrow> ustring" where
  "read_file d name = (case map_of d name of Some content \<Rightarrow> content | None \<Rightarrow> [])"

definition write_file :: "ustring \<Rightarrow> ustring \<Rightarrow> dir \<Rightarrow> dir" where
  "write_file name content d =
     (if isfile d name
      then map (\<lambda>entry. if fst entry = name then (name, content) else entry) d
      else d @ [(name, content)])"

text \<open>
  \<open>glob.glob('*.res')\<close>: the names that end with \<open>.res\<close>; a pattern that does not start
  with a dot matches no name that does.
\<close>

definition glob_res :: "dir \<Rightarrow> ustring list" where
  "glob_res d =
     [name \<leftarrow> map fst d. suffix (ustr ''.res'') name \<and> \<not> prefix (ustr ''.'') name]"

text \<open>
  \<open>s.replace(old, new)\<close> for a non-empty \<open>old\<close>: every occurrence of \<open>old\<close>, found from
  the left and without overlap, is replaced.
\<close>

function py_replace :: "ustring \<Rightarrow> ustring \<Rightarrow> ustring \<Rightarrow> ustring" where
  "py_replace old new s =
     (if s = [] \<or> old = [] then s
      else if prefix old s then new @ py_replace old new (drop (length old) s)
      else hd s # py_replace old new (tl s))"
  by pat_completeness auto
termination
  by (relation "measure (\<lambda>(old, new, s). length s)") auto

declare py_replace.simps [simp del]

text \<open>
  Reading a file opened in text mode translates every line ending (a carriage return
  with a line feed after it, a carriage return alone, a line feed) to one line feed.
\<close>

fun universal_newlines :: "ustring \<Rightarrow> ustring" where
  "universal_newlines [] = []"
| "universal_newlines [c] = [if c = 13 then 10 else c]"
| "universal_newlines (c # c' # cs) =
     (if c = 13 then 10 # universal_newlines (if c' = 10 then cs else c' # cs)
      else c # universal_newlines (c' # cs))"

text \<open>The lines of a translated text, each with its line feed when it has one.\<close>

fun split_lines :: "ustring \<Rightarrow> ustring list" where
  "split_lines [] = []"
| "split_lines (c # cs) =
     (if c = 10 then [c] # split_lines cs
      else (case split_lines cs of [] \<Rightarrow> [[c]] | l # ls \<Rightarrow> (c # l) # ls))"

text \<open>\<open>f.readlines()\<close> on a file opened in text mode, read from its start.\<close>

definition readlines :: "ustring \<Rightarrow> ustring list" where
  "readlines content = split_lines (universal_newlines content)"

text \<open>The names of the lock file and of the kill marker that are removed for a result file.\<close>

definition markers :: "ustring \<Rightarrow> ustring list" where
  "markers f =
     (let root = py_replace (ustr ''.res'') [] f
      in map (\<lambda>ext. root @ ustr ''.'' @ ext) [ustr ''res.lock'', ustr ''kill''])"

fun remove_each :: "ustring list \<Rightarrow> dir \<Rightarrow> dir" where
  "remove_each [] d = d"
| "remove_each (name # names) d =
     remove_each names (if isfile d name then os_remove name d else d)"

fun remove_markers :: "ustring list \<Rightarrow> dir \<Rightarrow> dir" where
  "remove_markers [] d = d"
| "remove_markers (f # res_list) d = remove_markers res_list (remove_each (markers f) d)"

text \<open>
  The loop over the lines of \<open>jobs.txt\<close>: the texts that are passed to \<open>f.write\<close>, one for
  each line that is kept.
\<close>

fun rewrite_jobs :: "ustring list \<Rightarrow> ustring list \<Rightarrow> ustring list" where
  "rewrite_jobs res_list [] = []"
| "rewrite_jobs res_list (line # flines) =
     (let line' = strip line
      in if line' \<in> set res_list then rewrite_jobs res_list flines
         else line' # rewrite_jobs res_list flines)"

text \<open>
  \<open>reset_job_folder\<close>: the directory that it leaves and the number that it returns. The
  file is written from its start and truncated after the last write, so its new text
  is the texts written, one after the other.
\<close>

definition reset_job_folder :: "dir \<Rightarrow> dir \<times> nat" where
  "reset_job_folder d =
     (let res_list = glob_res d;
          d1 = remove_markers res_list d;
          d2 = (if isfile d1 (ustr ''jobs.txt'')
                then write_file (ustr ''jobs.txt'')
                       (concat (rewrite_jobs res_list
                                  (readlines (read_file d1 (ustr ''jobs.txt''))))) d1
                else d1)
      in (d2, length res_list))"

text \<open>
  The texts that a call of \<open>reset_job_folder\<close> passes to \<open>f.write\<close>, in order, and the
  entries of the ledger before the call: its lines without the whitespace around them.
\<close>

definition written :: "dir \<Rightarrow> ustring list" where
  "written d =
     rewrite_jobs (glob_res d)
       (readlines (read_file (remove_markers (glob_res d) d) (ustr ''jobs.txt'')))"

definition entries :: "dir \<Rightarrow> ustring list" where
  "entries d = map strip (readlines (read_file d (ustr ''jobs.txt'')))"


section \<open>Properties of the geometry-optimisation schedule\<close>

lemma int_of_quotient_nonneg:
  "0 \<le> a \<Longrightarrow> 0 < b \<Longrightarrow> int_of_quotient a b = a div b"
  by (cases "a = 0") (simp_all add: int_of_quotient_def)

lemma nat_int_of_quotient:
  assumes "0 < b"
  shows "nat (int_of_quotient a b) = nat (a div b)"
proof (cases "0 \<le> a")
  case True
  with assms show ?thesis by (simp add: int_of_quotient_nonneg)
next
  case False
  with assms have "int_of_quotient a b \<le> 0"
    by (simp add: int_of_quotient_def pos_imp_zdiv_nonneg_iff)
  moreover from False assms have "a div b \<le> 0"
    using div_neg_pos_less0 [of a b] by simp
  ultimately show ?thesis by simp
qed

text \<open>
  Claim C5. The schedule of per-sub-run iteration caps is \<open>num_rough_iter\<close> entries
  (the \<open>rough\<close> argument, 4 when it is absent) each equal to the rough cap, which is 3
  when the document has a \<open>geom_method\<close> that lower-cases to \<open>tpsd\<close> and 2 otherwise,
  followed by \<open>floor(geom_max_iter / 20)\<close> entries each equal to 20, in that order.
  A negative count gives no entry, as Python's list repetition does.
\<close>

theorem geom_max_iter_list_schedule:
  "geom_max_iter_list rough d =
     replicate (nat (case rough of None \<Rightarrow> 4 | Some r \<Rightarrow> r))
       (if \<exists>m. geom_method d = Some m \<and> lower m = ''tpsd'' then 3 else 2)
     @ replicate (nat (geom_max_iter d div 20)) 20"
  by (simp add: geom_max_iter_list_def py_repeat_def num_rough_iter_def rough_iter_def
      nat_int_of_quotient split: option.splits)

theorem geom_max_iter_list_schedule_witness:
  "geom_max_iter_list None \<lparr>geom_max_iter = 65, geom_method = Some ''TPSD''\<rparr>
     = [3, 3, 3, 3, 20, 20, 20]
   \<and> geom_max_iter_list (Some 2) \<lparr>geom_max_iter = 40, geom_method = None\<rparr>
     = [2, 2, 20, 20]"
proof -
  have l: "lower ''TPSD'' = ''tpsd''" by code_simp
  show ?thesis
    using geom_max_iter_list_schedule [of None "\<lparr>geom_max_iter = 65, geom_method = Some ''TPSD''\<rparr>"]
      geom_max_iter_list_schedule [of "Some 2" "\<lparr>geom_max_iter = 40, geom_method = None\<rparr>"]
    by (simp add: l eval_nat_numeral)
qed


section \<open>Properties of the Refiner constructor\<close>

lemma Refiner_init_cases:
  "Refiner_init coll tsk md =
     (if coll = None \<and> md \<in> {''overwrite'', ''set''}
      then Inl (SystemExit ''Impossible to overwite or set without db collection, exiting...'')
      else if tsk = None then Inl (SystemExit ''No specified task, exiting...'')
      else if the tsk \<notin> set possible_tasks
      then Inl (SystemExit (''Did not understand task, please choose one of ''
                             @ py_join '', '' possible_tasks))
      else Inr \<lparr>collection = coll,
                mode = (if md \<in> set possible_modes then md else ''display''),
                task = the tsk, changed_count = 0, failed_count = 0\<rparr>)"
  by (auto simp: Refiner_init_def possible_modes_def split: option.splits)

text \<open>
  Claim C3 as stated fails: a mode name outside the supported set is not fatal. With the
  task \<open>sym\<close> and the unknown mode \<open>fast\<close> the constructor passes its checks and goes
  on in mode \<open>display\<close>.
\<close>

theorem Refiner_init_unknown_mode_not_fatal:
  "Refiner_init (None :: nat option) (Some ''sym'') ''fast''
     = Inr \<lparr>collection = None, mode = ''display'', task = ''sym'',
            changed_count = 0, failed_count = 0\<rparr>"
  by (simp add: Refiner_init_def possible_modes_def possible_tasks_def)

text \<open>
  Claim C3, amended. The constructor aborts exactly when mode \<open>overwrite\<close> or \<open>set\<close> is
  requested without a collection handle, or no task is given, or the task name is outside
  the supported set. A mode name outside the supported set is not fatal: whenever the
  constructor passes its checks, the mode in force is the requested one when that is
  supported and \<open>display\<close> otherwise.
\<close>

theorem Refiner_init_fatal:
  "(isl (Refiner_init coll tsk md) \<longleftrightarrow>
      (coll = None \<and> md \<in> {''overwrite'', ''set''}) \<or> tsk = None
       \<or> the tsk \<notin> set possible_tasks)
   \<and> (\<forall>r. Refiner_init coll tsk md = Inr r \<longrightarrow>
          mode r = (if md \<in> set possible_modes then md else ''display''))"
  by (auto simp: Refiner_init_cases)

theorem Refiner_init_fatal_witness:
  "isl (Refiner_init (Some (0::nat)) (Some ''symmetry'') ''display'')
   \<and> isl (Refiner_init (None :: nat option) (Some ''sym'') ''set'')
   \<and> mode (projr (Refiner_init (Some (0::nat)) (Some ''ratios'') ''show'')) = ''display''
   \<and> mode (projr (Refiner_init (Some (0::nat)) (Some ''ratios'') ''set'')) = ''set''"
proof -
  have a: "Refiner_init (Some (0::nat)) (Some ''ratios'') ''show''
             = Inr (projr (Refiner_init (Some (0::nat)) (Some ''ratios'') ''show''))"
    by (simp add: Refiner_init_def possible_modes_def possible_tasks_def)
  have b: "Refiner_init (Some (0::nat)) (Some ''ratios'') ''set''
             = Inr (projr (Refiner_init (Some (0::nat)) (Some ''ratios'') ''set''))"
    by (simp add: Refiner_init_def possible_modes_def possible_tasks_def)
  show ?thesis
    using Refiner_init_fatal [of "Some (0::nat)" "Some ''symmetry''" "''display''"]
      Refiner_init_fatal [of "None :: nat option" "Some ''sym''" "''set''"]
      Refiner_init_fatal [of "Some (0::nat)" "Some ''ratios''" "''show''"] a
      Refiner_init_fatal [of "Some (0::nat)" "Some ''ratios''" "''set''"] b
    by (simp add: possible_modes_def possible_tasks_def)
qed


section \<open>Properties of stoich2tex\<close>

lemma concat_stoich2tex_loop:
  "concat (stoich2tex_loop f s acc) = concat acc @ concat (map (tex_of_pair f) s)"
  by (induction s arbitrary: acc) (auto simp: tex_of_pair_def Let_def)

text \<open>
  Claim C8. For every stoichiometry list, \<open>stoich2tex\<close> returns the string that starts
  and ends with a dollar sign and holds, left to right, for each pair its symbol exactly
  when the count is greater than 0, followed by the subscript group of the count exactly
  when the count is not 1. The list of Li with 3 and P with 1 gives \<open>$Li_{3}P$\<close>.
\<close>

theorem stoich2tex_pairs:
  "stoich2tex float_str s =
     ''$'' @ concat (map (\<lambda>(symbol, cnt).
                (if cnt > 0 then symbol else [])
                @ (if cnt \<noteq> 1 then ''_{'' @ format_count float_str cnt @ ''}'' else []))
              s) @ ''$''
   \<and> stoich2tex float_str [(''Li'', 3), (''P'', 1)] = ''$Li_{3}P$''"
proof -
  have eq: "tex_of_pair float_str = (\<lambda>(symbol, cnt).
                (if cnt > 0 then symbol else [])
                @ (if cnt \<noteq> 1 then ''_{'' @ format_count float_str cnt @ ''}'' else []))"
    by (auto simp: tex_of_pair_def fun_eq_iff)
  have gen: "stoich2tex float_str s = ''$'' @ concat (map (tex_of_pair float_str) s) @ ''$''" for s
    by (simp add: stoich2tex_def concat_stoich2tex_loop)
  have three: "show_int 3 = ''3''" by code_simp
  have "stoich2tex float_str [(''Li'', 3), (''P'', 1)] = ''$Li_{3}P$''"
    by (simp add: gen tex_of_pair_def format_count_def is_integer_def three)
  with gen eq show ?thesis by simp
qed

theorem stoich2tex_pairs_witness:
  "stoich2tex (\<lambda>c. ''0.5'') [(''Na'', 1), (''Cl'', 1/2), (''X'', 0), (''K'', 12)]
     = ''$NaCl_{0.5}_{0}K_{12}$''"
proof -
  have n: "show_int 0 = ''0''" "show_int 12 = ''12''" by code_simp+
  have i: "\<not> is_integer (1/2)" "is_integer 0" "is_integer 12" by code_simp+
  show ?thesis
    using stoich2tex_pairs [of "\<lambda>c. ''0.5''" "[(''Na'', 1), (''Cl'', 1/2), (''X'', 0), (''K'', 12)]"]
    by (simp add: format_count_def n i)
qed



section \<open>Properties of the quality score\<close>

lemma quality_loop_missing:
  "\<exists>e\<in>set st. pot (fst e) = None \<Longrightarrow> quality_loop pot st q = 0"
  by (induction st arbitrary: q) (auto split: option.splits)

lemma quality_loop_covered:
  "\<forall>e\<in>set st. pot (fst e) \<noteq> None \<Longrightarrow>
     quality_loop pot st q = q - int (length [e\<leftarrow>st. is_OTF (the (pot (fst e)))])"
  by (induction st arbitrary: q) (auto split: option.splits)

lemma stored_struct2db:
  "quality (stored (struct2db sp w n s)) = Some (struct_quality s)"
  by (simp add: struct2db_def stored_def Let_def struct_quality_def split: option.splits)

text \<open>
  Claim C6. The document that \<open>struct2db\<close> stores has quality 0 when \<open>species_pot\<close> is
  absent or has no entry for some element of the stoichiometry; otherwise its quality
  is 5 minus the number of stoichiometry elements whose pseudopotential is generic, that
  is, whose pseudopotential string, in upper case, contains \<open>OTF\<close>.
\<close>

theorem struct2db_quality:
  "quality (stored (struct2db sp wline nline s)) =
     Some (case species_pot s of
             None \<Rightarrow> 0
           | Some pot \<Rightarrow>
               if \<exists>e\<in>set (stoichiometry s). pot (fst e) = None then 0
               else 5 - int (length [e\<leftarrow>stoichiometry s. is_OTF (the (pot (fst e)))]))"
proof (cases "species_pot s")
  case None
  then show ?thesis by (simp add: stored_struct2db struct_quality_def)
next
  case (Some pot)
  show ?thesis
  proof (cases "\<exists>e\<in>set (stoichiometry s). pot (fst e) = None")
    case True
    with Some show ?thesis
      by (simp add: stored_struct2db struct_quality_def quality_loop_missing)
  next
    case False
    then have cov: "\<forall>e\<in>set (stoichiometry s). pot (fst e) \<noteq> None" by simp
    show ?thesis
      unfolding stored_struct2db struct_quality_def Some option.case if_not_P [OF False]
      using quality_loop_covered [OF cov] by simp
  qed
qed

text \<open>
  Claim C10. The quality score has no lower bound of zero. When \<open>species_pot\<close> covers
  every element of the stoichiometry, the stored quality is 5 minus the number of
  elements with an \<open>OTF\<close> pseudopotential, and so it is negative for every document with
  six or more elements that all use \<open>OTF\<close> pseudopotentials.
\<close>

theorem struct2db_quality_negative:
  assumes "species_pot s = Some pot"
    and "\<forall>e\<in>set (stoichiometry s). pot (fst e) \<noteq> None"
  shows "quality (stored (struct2db sp wline nline s)) =
           Some (5 - int (length [e\<leftarrow>stoichiometry s. is_OTF (the (pot (fst e)))]))
         \<and> (6 \<le> length (stoichiometry s)
              \<and> (\<forall>e\<in>set (stoichiometry s). is_OTF (the (pot (fst e))))
            \<longrightarrow> (\<exists>q < 0. quality (stored (struct2db sp wline nline s)) = Some q))"
proof -
  have q: "quality (stored (struct2db sp wline nline s)) =
           Some (5 - int (length [e\<leftarrow>stoichiometry s. is_OTF (the (pot (fst e)))]))"
    using assms quality_loop_covered [OF assms(2), of 5]
    by (simp add: stored_struct2db struct_quality_def)
  moreover have "5 - int (length [e\<leftarrow>stoichiometry s. is_OTF (the (pot (fst e)))]) < 0"
    if "6 \<le> length (stoichiometry s)" "\<forall>e\<in>set (stoichiometry s). is_OTF (the (pot (fst e)))"
  proof -
    from that(2) have "[e\<leftarrow>stoichiometry s. is_OTF (the (pot (fst e)))] = stoichiometry s"
      by (simp add: filter_id_conv)
    with that(1) show ?thesis by simp
  qed
  ultimately show ?thesis by auto
qed


theorem struct2db_quality_witness:
  "quality (stored (struct2db \<lparr>tag_dict_tags = None, repo = []\<rparr> (ustr ''glib'') (ustr ''otter'')
      \<lparr>stoichiometry = [(''Li'', 3), (''P'', 1)],
       species_pot = Some [''Li'' \<mapsto> ''Li_otf.usp'', ''P'' \<mapsto> ''P_00PBE.usp''],
       text_id = None, tags = None, quality = None\<rparr>)) = Some 4
   \<and> quality (stored (struct2db \<lparr>tag_dict_tags = None, repo = []\<rparr> (ustr ''glib'') (ustr ''otter'')
      \<lparr>stoichiometry = [(''Li'', 3), (''P'', 1)],
       species_pot = Some [''Li'' \<mapsto> ''Li_otf.usp''],
       text_id = None, tags = None, quality = None\<rparr>)) = Some 0"
proof -
  have o: "is_OTF ''Li_otf.usp''" "\<not> is_OTF ''P_00PBE.usp''" by code_simp+
  show ?thesis
    using struct2db_quality [of "\<lparr>tag_dict_tags = None, repo = []\<rparr>" "ustr ''glib''" "ustr ''otter''"
      "\<lparr>stoichiometry = [(''Li'', 3), (''P'', 1)],
       species_pot = Some [''Li'' \<mapsto> ''Li_otf.usp'', ''P'' \<mapsto> ''P_00PBE.usp''],
       text_id = None, tags = None, quality = None\<rparr>"]
     struct2db_quality [of "\<lparr>tag_dict_tags = None, repo = []\<rparr>" "ustr ''glib''" "ustr ''otter''"
      "\<lparr>stoichiometry = [(''Li'', 3), (''P'', 1)],
       species_pot = Some [''Li'' \<mapsto> ''Li_otf.usp''],
       text_id = None, tags = None, quality = None\<rparr>"]
    by (simp add: o)
qed

theorem struct2db_quality_negative_witness:
  "quality (stored (struct2db \<lparr>tag_dict_tags = None, repo = []\<rparr> (ustr ''glib'') (ustr ''otter'')
      \<lparr>stoichiometry = [(''C'', 2), (''H'', 7), (''N'', 1), (''O'', 2), (''S'', 1), (''P'', 1)],
       species_pot = Some [''C'' \<mapsto> ''C_OTF.usp'', ''H'' \<mapsto> ''H_OTF.usp'',
                           ''N'' \<mapsto> ''N_OTF.usp'', ''O'' \<mapsto> ''O_OTF.usp'',
                           ''S'' \<mapsto> ''S_OTF.usp'', ''P'' \<mapsto> ''P_OTF.usp''],
       text_id = None, tags = None, quality = None\<rparr>)) = Some (- 1)"
proof -
  have o: "is_OTF ''C_OTF.usp''" "is_OTF ''H_OTF.usp''" "is_OTF ''N_OTF.usp''"
    "is_OTF ''O_OTF.usp''" "is_OTF ''S_OTF.usp''" "is_OTF ''P_OTF.usp''"
    by code_simp+
  show ?thesis
    using struct2db_quality_negative [of
      "\<lparr>stoichiometry = [(''C'', 2), (''H'', 7), (''N'', 1), (''O'', 2), (''S'', 1), (''P'', 1)],
       species_pot = Some [''C'' \<mapsto> ''C_OTF.usp'', ''H'' \<mapsto> ''H_OTF.usp'',
                           ''N'' \<mapsto> ''N_OTF.usp'', ''O'' \<mapsto> ''O_OTF.usp'',
                           ''S'' \<mapsto> ''S_OTF.usp'', ''P'' \<mapsto> ''P_OTF.usp''],
       text_id = None, tags = None, quality = None\<rparr>"
      "[''C'' \<mapsto> ''C_OTF.usp'', ''H'' \<mapsto> ''H_OTF.usp'',
        ''N'' \<mapsto> ''N_OTF.usp'', ''O'' \<mapsto> ''O_OTF.usp'',
        ''S'' \<mapsto> ''S_OTF.usp'', ''P'' \<mapsto> ''P_OTF.usp'']"
      "\<lparr>tag_dict_tags = None, repo = []\<rparr>" "ustr ''glib''" "ustr ''otter''"]
    by (simp add: o)
qed



section \<open>Properties of the per-B fields\<close>

lemma sum_list_update_add:
  "i < length xs \<Longrightarrow> sum_list (xs[i := xs ! i + (v::rat)]) = sum_list xs + v"
proof (induction xs arbitrary: i)
  case Nil
  then show ?case by simp
next
  case (Cons x xs)
  then show ?case by (cases i) simp_all
qed

lemma nums_b_inner_length [simp]:
  "length (nums_b_inner elem ps nums_b) = length nums_b"
  by (induction elem ps nums_b rule: nums_b_inner.induct) simp_all

lemma nums_b_inner_sum:
  "k + length B \<le> length nums_b \<Longrightarrow>
     sum_list (nums_b_inner elem (enumerate k B) nums_b)
       = sum_list nums_b + snd elem * of_nat (count_list B (fst elem))"
proof (induction B arbitrary: k nums_b)
  case Nil
  then show ?case by simp
next
  case (Cons b B)
  then have k: "k < length nums_b" and r: "Suc k + length B \<le> length nums_b" by simp_all
  show ?case
  proof (cases "fst elem = b")
    case True
    from r have "Suc k + length B \<le> length (nums_b[k := nums_b ! k + snd elem])" by simp
    from Cons.IH [OF this] True sum_list_update_add [OF k, of "snd elem"] show ?thesis
      by (simp add: algebra_simps)
  next
    case False
    with Cons.IH [of "Suc k" nums_b] r show ?thesis by simp
  qed
qed

lemma nums_b_loop_sum:
  "length B \<le> length nums_b \<Longrightarrow>
     sum_list (nums_b_loop st B nums_b) = sum_list nums_b + atoms_of_b B st"
proof (induction st arbitrary: nums_b)
  case Nil
  then show ?case by (simp add: atoms_of_b_def)
next
  case (Cons elem st)
  from Cons.prems have "0 + length B \<le> length nums_b" by simp
  from nums_b_inner_sum [OF this] Cons.IH [of "nums_b_inner elem (enumerate 0 B) nums_b"] Cons.prems
  show ?case by (simp add: atoms_of_b_def)
qed

lemma sum_list_replicate_zero: "sum_list (replicate n (0::rat)) = 0"
  by (induction n) simp_all

lemma num_b_atoms: "num_b B doc = atoms_of_b B (stoichiometry doc)"
  by (simp add: num_b_def nums_b_loop_sum sum_list_replicate_zero)

text \<open>
  Claim C9, amended. In a binary hull construction the count \<open>num_b\<close> is the number of
  atoms of type B of the stoichiometry. For every document with zero atoms of type B,
  both \<open>enthalpy_per_b\<close> and \<open>cell_volume_per_b\<close> are set to the sentinel 12345e5 and
  nothing is divided. The guard is on \<open>num_b\<close> alone: for every other document the
  divisor is \<open>num_b * num_fu\<close>, the two fields are the quotients when \<open>num_fu\<close> is not
  zero, and the division raises ZeroDivisionError exactly when \<open>num_fu\<close> is zero.
\<close>

theorem per_b_guard:
  "num_b B doc = atoms_of_b B (stoichiometry doc)
   \<and> (atoms_of_b B (stoichiometry doc) = 0 \<longrightarrow>
        per_b B doc = Inr (doc\<lparr>enthalpy_per_b := Some sentinel, cell_volume_per_b := Some sentinel\<rparr>))
   \<and> (atoms_of_b B (stoichiometry doc) \<noteq> 0 \<and> num_fu doc \<noteq> 0 \<longrightarrow>
        per_b B doc = Inr (doc\<lparr>enthalpy_per_b := Some (enthalpy doc / (num_b B doc * num_fu doc)),
                              cell_volume_per_b := Some (cell_volume doc / (num_b B doc * num_fu doc))\<rparr>))
   \<and> (per_b B doc = Inl ZeroDivisionError \<longleftrightarrow>
        atoms_of_b B (stoichiometry doc) \<noteq> 0 \<and> num_fu doc = 0)"
  by (auto simp: num_b_atoms per_b_def py_truediv_def Let_def)

text \<open>
  Claim C9 as stated fails: the division by zero can be reached. A cursor with one
  document that has one atom of type B and \<open>num_fu\<close> zero passes the guard on \<open>num_b\<close>
  and divides by \<open>num_b * num_fu = 0\<close>.
\<close>

theorem per_b_division_by_zero:
  "hull_2d_per_b False [''P'']
     [\<lparr>stoichiometry = [(''Li'', 1), (''P'', 1)], species_pot = None, text_id = None,
       tags = None, quality = None, num_fu = 0, enthalpy = - 10, cell_volume = 20,
       enthalpy_per_b = None, cell_volume_per_b = None\<rparr>] = Inl ZeroDivisionError"
  by (simp add: per_b_def num_b_def py_truediv_def enumerate_eq_zip)

theorem per_b_guard_witness:
  "per_b [''P'']
     \<lparr>stoichiometry = [(''Li'', 3), (''P'', 1)], species_pot = None, text_id = None,
      tags = None, quality = None, num_fu = 2, enthalpy = - 10, cell_volume = 20,
      enthalpy_per_b = None, cell_volume_per_b = None\<rparr>
   = Inr \<lparr>stoichiometry = [(''Li'', 3), (''P'', 1)], species_pot = None, text_id = None,
      tags = None, quality = None, num_fu = 2, enthalpy = - 10, cell_volume = 20,
      enthalpy_per_b = Some (- 5), cell_volume_per_b = Some 10\<rparr>
   \<and> per_b [''P'']
     \<lparr>stoichiometry = [(''Li'', 1)], species_pot = None, text_id = None,
      tags = None, quality = None, num_fu = 0, enthalpy = - 4, cell_volume = 20,
      enthalpy_per_b = None, cell_volume_per_b = None\<rparr>
   = Inr \<lparr>stoichiometry = [(''Li'', 1)], species_pot = None, text_id = None,
      tags = None, quality = None, num_fu = 0, enthalpy = - 4, cell_volume = 20,
      enthalpy_per_b = Some 1234500000, cell_volume_per_b = Some 1234500000\<rparr>"
  using per_b_guard [of "[''P'']"
     "\<lparr>stoichiometry = [(''Li'', 3), (''P'', 1)], species_pot = None, text_id = None,
      tags = None, quality = None, num_fu = 2, enthalpy = - 10, cell_volume = 20,
      enthalpy_per_b = None, cell_volume_per_b = None\<rparr>"]
    per_b_guard [of "[''P'']"
     "\<lparr>stoichiometry = [(''Li'', 1)], species_pot = None, text_id = None,
      tags = None, quality = None, num_fu = 0, enthalpy = - 4, cell_volume = 20,
      enthalpy_per_b = None, cell_volume_per_b = None\<rparr>"]
  by (simp add: atoms_of_b_def sentinel_def)




section \<open>Properties of the binary voltage curve\<close>

lemma voltage_loop_map:
  "voltage_loop H x mu idx V =
     V @ map (\<lambda>i. - (nth_wrap H (int i) - nth_wrap H (int i - 1))
               / (nth_wrap x (int i) - nth_wrap x (int i - 1)) + mu) idx"
  by (induction idx arbitrary: V) simp_all

lemma nth_wrap_nat [simp]: "nth_wrap a (int i) = a ! i"
  by (simp add: nth_wrap_def)

lemma nth_wrap_pred: "0 < i \<Longrightarrow> nth_wrap a (int i - 1) = a ! (i - 1)"
  by (simp add: nth_wrap_def nat_diff_distrib')

lemma voltage_loop_nth:
  assumes "0 < i" "i < n"
  shows "voltage_loop H x mu [0..<n] [] ! i = step_voltage H x mu i"
  using assms by (simp add: voltage_loop_map step_voltage_def nth_wrap_pred)

lemma voltage_loop_length: "length (voltage_loop H x mu [0..<n] []) = n"
  by (simp add: voltage_loop_map)

lemma unique_x_props:
  "sorted (unique_x x)" "distinct (unique_x x)" "set (unique_x x) = set x"
  "length (unique_x x) = card (set x)"
proof -
  have u: "unique_x x = sort (remdups (sort x))" by (simp add: unique_x_def np_unique_def Let_def)
  show "sorted (unique_x x)" "distinct (unique_x x)" "set (unique_x x) = set x"
    by (simp_all add: u)
  have "length (unique_x x) = length (remdups (sort x))" by (simp add: u)
  also have "\<dots> = card (set (sort x))" by (rule length_remdups_card_conv)
  finally show "length (unique_x x) = card (set x)" by simp
qed

lemma unique_x_step:
  assumes "0 < i" "i < length (unique_x x)"
  shows "unique_x x ! (i - 1) < unique_x x ! i"
proof -
  from assms have "unique_x x ! (i - 1) \<le> unique_x x ! i"
    using unique_x_props(1) [of x] by (simp add: sorted_nth_mono)
  moreover from assms have "unique_x x ! (i - 1) \<noteq> unique_x x ! i"
    using unique_x_props(2) [of x] by (simp add: nth_eq_iff_index_eq)
  ultimately show ?thesis by simp
qed


lemma first_index_props:
  "v \<in> set x \<Longrightarrow> first_index x v < length x"
  "v \<in> set x \<Longrightarrow> x ! first_index x v = v"
  unfolding first_index_def by (induction x) auto

lemma argsort_sorts:
  assumes "is_argsort order x"
  shows "np_take x order = sort x" "length order = length x" "set order = {0..<length x}"
proof -
  from assms have so: "sort order = [0..<length x]" and sd: "sorted (np_take x order)"
    by (simp_all add: is_argsort_def)
  have "mset order = mset (sort order)" by simp
  with so have m: "mset order = mset [0..<length x]" by simp
  then have "image_mset ((!) x) (mset order) = image_mset ((!) x) (mset [0..<length x])" by simp
  then have "mset (np_take x order) = mset (map ((!) x) [0..<length x])"
    by (simp add: np_take_def)
  then have "mset (np_take x order) = mset x" by (simp add: map_nth)
  from properties_for_sort [OF this sd] show "np_take x order = sort x" by simp
  from m show "length order = length x" by (metis length_upt mset_eq_length minus_nat.diff_0)
  from m show "set order = {0..<length x}" by (metis mset_eq_setD set_upt)
qed

lemma unique_provenance:
  assumes a: "is_argsort order x" and hl: "length H = length x" and ql: "length Q = length x"
    and i: "i < length (unique_x x)"
  shows "\<exists>j<length x. x ! j = unique_x x ! i
            \<and> H ! j = stable_enthalpy_per_b order x H ! i
            \<and> Q ! j = np_take (np_take Q order) (snd (np_unique (sort x))) ! i"
proof -
  let ?sx = "sort x"
  let ?v = "unique_x x ! i"
  let ?k = "first_index ?sx ?v"
  have idx: "snd (np_unique ?sx) = map (first_index ?sx) (unique_x x)"
    by (simp add: np_unique_def unique_x_def Let_def)
  from i have "?v \<in> set (unique_x x)" by simp
  then have "?v \<in> set ?sx" by (simp add: unique_x_props(3))
  from first_index_props [OF this] have k: "?k < length x" and kv: "?sx ! ?k = ?v" by simp_all
  from k have ko: "?k < length order" by (simp add: argsort_sorts(2) [OF a])
  then have "order ! ?k \<in> set order" by simp
  then have j: "order ! ?k < length x" by (simp add: argsort_sorts(3) [OF a])
  have "x ! (order ! ?k) = np_take x order ! ?k" using ko by (simp add: np_take_def)
  also have "\<dots> = ?v" using kv by (simp add: argsort_sorts(1) [OF a])
  finally have xj: "x ! (order ! ?k) = ?v" .
  have hj: "stable_enthalpy_per_b order x H ! i = H ! (order ! ?k)"
    using i ko by (simp add: stable_enthalpy_per_b_def idx np_take_def)
  have qj: "np_take (np_take Q order) (snd (np_unique (sort x))) ! i = Q ! (order ! ?k)"
    using i ko by (simp add: idx np_take_def)
  from j xj hj qj show ?thesis by auto
qed


text \<open>
  Claim C4. For every binary voltage-curve computation over structures with at least two
  distinct numbers of intercalated ions, \<open>voltage_curve\<close> stores the ion counts sorted
  and without duplicates, each with the enthalpy and capacity of one structure that has
  that count, and the voltages as follows: the voltage at every interior index \<open>i\<close> is
  \<open>-(enthalpy_per_b[i] - enthalpy_per_b[i-1]) / (x[i] - x[i-1]) + mu\<close>, where the divisor
  is positive; the first voltage is the one computed for the second point (their entries
  are equal whenever there are more than two points; with exactly two points the second
  is the final one); and the final voltage is 0, which is set last.
\<close>

theorem voltage_curve_binary:
  assumes "is_argsort order x" and "length H = length x" and "length Q = length x"
    and "2 \<le> card (set x)"
  shows "\<exists>V Q'. voltage_curve order x Q H mu = Inr (V, Q', unique_x x)
     \<and> sorted (unique_x x) \<and> distinct (unique_x x) \<and> set (unique_x x) = set x
     \<and> length V = length (unique_x x) \<and> length Q' = length (unique_x x)
     \<and> (\<forall>i<length (unique_x x). \<exists>j<length x.
            x ! j = unique_x x ! i \<and> H ! j = stable_enthalpy_per_b order x H ! i
            \<and> Q ! j = Q' ! i)
     \<and> (\<forall>i. 0 < i \<and> i < length (unique_x x) \<longrightarrow> unique_x x ! (i - 1) < unique_x x ! i)
     \<and> V ! 0 = step_voltage (stable_enthalpy_per_b order x H) (unique_x x) mu 1
     \<and> (\<forall>i. 0 < i \<and> i < length V - 1 \<longrightarrow>
            V ! i = step_voltage (stable_enthalpy_per_b order x H) (unique_x x) mu i)
     \<and> (2 < length V \<longrightarrow> V ! 0 = V ! 1)
     \<and> V ! (length V - 1) = 0"
proof -
  let ?xs = "unique_x x"
  let ?Hs = "stable_enthalpy_per_b order x H"
  let ?n = "length ?xs"
  let ?W = "voltage_loop ?Hs ?xs mu [0..<?n] []"
  let ?V = "(?W[0 := ?W ! 1])[length ?W - 1 := 0]"
  let ?Q = "np_take (np_take Q order) (snd (np_unique (sort x)))"
  from assms(4) have n: "2 \<le> ?n" by (simp add: unique_x_props(4))
  have l0: "length ?W = ?n" by (rule voltage_loop_length)
  have vc: "voltage_curve order x Q H mu = Inr (?V, ?Q, ?xs)"
    using n unfolding voltage_curve_def Let_def l0 by simp
  have lv: "length ?V = ?n" by (simp add: l0)
  have lq: "length ?Q = ?n"
    by (simp add: np_take_def np_unique_def unique_x_def Let_def)
  have prov: "\<forall>i<?n. \<exists>j<length x. x ! j = ?xs ! i \<and> H ! j = ?Hs ! i \<and> Q ! j = ?Q ! i"
    using unique_provenance [OF assms(1,2,3)] by blast
  have steps: "\<forall>i. 0 < i \<and> i < ?n \<longrightarrow> ?xs ! (i - 1) < ?xs ! i"
    using unique_x_step by blast
  have v0: "?V ! 0 = step_voltage ?Hs ?xs mu 1"
  proof -
    from n have "0 < ?n" "0 \<noteq> ?n - 1" by linarith+
    then have "0 < length ?W" "0 \<noteq> length ?W - 1" unfolding l0 .
    then have "?V ! 0 = ?W ! 1" by (simp del: One_nat_def)
    also from n have "\<dots> = step_voltage ?Hs ?xs mu 1" by (simp add: voltage_loop_nth)
    finally show ?thesis .
  qed
  have vi: "\<forall>i. 0 < i \<and> i < length ?V - 1 \<longrightarrow> ?V ! i = step_voltage ?Hs ?xs mu i"
  proof (intro allI impI)
    fix i assume i: "0 < i \<and> i < length ?V - 1"
    then have "0 < i" "i < ?n - 1" by (simp_all add: l0)
    then have "i < ?n" "i \<noteq> ?n - 1" "i \<noteq> 0" by linarith+
    then have "i < ?n" "i \<noteq> length ?W - 1" "i \<noteq> 0" unfolding l0 .
    then have "?V ! i = ?W ! i" by simp
    also from i \<open>i < ?n\<close> have "\<dots> = step_voltage ?Hs ?xs mu i" by (simp add: voltage_loop_nth)
    finally show "?V ! i = step_voltage ?Hs ?xs mu i" .
  qed
  have vl: "?V ! (length ?V - 1) = 0"
  proof -
    from n have "?n - 1 < ?n" by linarith
    then have "length ?W - 1 < length (?W[0 := ?W ! 1])" unfolding length_list_update l0 .
    then show ?thesis by (simp del: One_nat_def)
  qed
  have v01: "2 < length ?V \<longrightarrow> ?V ! 0 = ?V ! 1"
  proof
    assume "2 < length ?V"
    then have "0 < (1::nat) \<and> 1 < length ?V - 1" by simp
    with vi have "?V ! 1 = step_voltage ?Hs ?xs mu 1" by blast
    with v0 show "?V ! 0 = ?V ! 1" by simp
  qed
  from vc lv lq prov steps v0 vi v01 vl unique_x_props(1,2,3) [of x] show ?thesis by blast
qed


theorem voltage_curve_binary_witness:
  "is_argsort [2, 0, 3, 1] [1, 3, 0, 1]
   \<and> 2 \<le> card (set [1, 3, 0, 1 :: rat])
   \<and> (\<exists>V Q'. voltage_curve [2, 0, 3, 1] [1, 3, 0, 1] [10, 30, 0, 11] [- 2, - 6, 0, - 3] (- 1)
                = Inr (V, Q', [0, 1, 3])
              \<and> length V = 3 \<and> V ! 0 = 1 \<and> V ! 1 = 1 \<and> V ! 2 = 0)"
proof -
  have a: "is_argsort [2, 0, 3, 1] [1, 3, 0, 1]" by code_simp
  have c: "2 \<le> card (set [1, 3, 0, 1 :: rat])" by code_simp
  have u: "unique_x [1, 3, 0, 1] = [0, 1, 3]" by code_simp
  have s: "step_voltage (stable_enthalpy_per_b [2, 0, 3, 1] [1, 3, 0, 1] [- 2, - 6, 0, - 3])
             [0, 1, 3] (- 1) 1 = 1"
    by code_simp
  from voltage_curve_binary [OF a _ _ c, of "[- 2, - 6, 0, - 3]" "[10, 30, 0, 11]" "- 1"]
  obtain V Q' where
    v: "voltage_curve [2, 0, 3, 1] [1, 3, 0, 1] [10, 30, 0, 11] [- 2, - 6, 0, - 3] (- 1)
          = Inr (V, Q', unique_x [1, 3, 0, 1])"
    and l: "length V = length (unique_x [1, 3, 0, 1])"
    and v0: "V ! 0 = step_voltage (stable_enthalpy_per_b [2, 0, 3, 1] [1, 3, 0, 1] [- 2, - 6, 0, - 3])
                       (unique_x [1, 3, 0, 1]) (- 1) 1"
    and vi: "\<forall>i. 0 < i \<and> i < length V - 1 \<longrightarrow>
            V ! i = step_voltage (stable_enthalpy_per_b [2, 0, 3, 1] [1, 3, 0, 1] [- 2, - 6, 0, - 3])
                      (unique_x [1, 3, 0, 1]) (- 1) i"
    and vl: "V ! (length V - 1) = 0"
    by auto
  from l have l3: "length V = 3" unfolding u by simp
  from v0 have "V ! 0 = 1" unfolding u s .
  moreover from vi l3 have "V ! 1 = 1" unfolding u using s by simp
  moreover from vl l3 have "V ! 2 = 0" by simp
  moreover note v [unfolded u] l3 a c
  ultimately show ?thesis by blast
qed



section \<open>Properties of the collection of worker results\<close>

lemma collect_errors_take:
  "n \<le> length q \<Longrightarrow> collect_errors n q acc = Some (acc @ reported n q)"
  by (induction n q acc rule: collect_errors.induct) (simp_all add: reported_def)

lemma collect_errors_short:
  "length q < n \<Longrightarrow> collect_errors n q acc = None"
  by (induction n q acc rule: collect_errors.induct) simp_all

lemma error_message_loop_concat:
  "error_message_loop errs msg = msg @ concat (map describe errs)"
  by (induction errs msg rule: error_message_loop.induct) (simp_all add: describe_def)

lemma card_set_one_iff:
  "xs \<noteq> [] \<Longrightarrow> card (set xs) = 1 \<longleftrightarrow> (\<forall>x\<in>set xs. x = hd xs)"
proof
  assume ne: "xs \<noteq> []" and c: "card (set xs) = 1"
  then obtain a where a: "set xs = {a}" by (auto simp: card_1_singleton_iff)
  with ne have "hd xs = a" by (metis hd_in_set singletonD)
  with a show "\<forall>x\<in>set xs. x = hd xs" by auto
next
  assume ne: "xs \<noteq> []" and all: "\<forall>x\<in>set xs. x = hd xs"
  then have "set xs = {hd xs}" by auto
  then show "card (set xs) = 1" by simp
qed

lemma spawn_cases:
  assumes "nprocesses \<le> length error_queue"
  shows "spawn nprocesses error_queue =
     (let errors = reported nprocesses error_queue in
      if errors = [] then Returns
      else if \<forall>e\<in>set errors. fst (snd e) = fst (snd (hd errors))
      then raise_same_type (fst (snd (hd errors))) (concat (map describe errors))
      else Raises ''BundledErrors'' (concat (map describe errors)))"
proof -
  define errors where "errors = reported nprocesses error_queue"
  have c: "collect_errors nprocesses error_queue [] = Some errors"
    using assms by (simp add: collect_errors_take errors_def)
  show ?thesis
  proof (cases "errors = []")
    case True
    then show ?thesis
      unfolding spawn_def c errors_def [symmetric] Let_def by simp
  next
    case False
    let ?ts = "map (\<lambda>error. fst (snd error)) errors"
    from False have ne: "?ts \<noteq> []" by simp
    have k: "card (set ?ts) = 1 \<longleftrightarrow>
            (\<forall>e\<in>set errors. fst (snd e) = fst (snd (hd errors)))"
      using card_set_one_iff [OF ne] False by (simp add: hd_map)
    have h: "errors ! 0 = hd errors" using False by (simp add: hd_conv_nth)
    have m: "error_message_loop errors [] = concat (map describe errors)"
      by (simp add: error_message_loop_concat)
    have "spawn nprocesses error_queue =
       (if card (set ?ts) = 1
        then raise_same_type (fst (snd (errors ! 0))) (concat (map describe errors))
        else Raises ''BundledErrors'' (concat (map describe errors)))"
      unfolding spawn_def c option.case Let_def m using False by simp
    then show ?thesis
      unfolding errors_def [symmetric] Let_def k h using False by simp
  qed
qed

lemma spawn_bundles:
  assumes "nprocesses \<le> length error_queue"
    and "\<not> (\<forall>e\<in>set (reported nprocesses error_queue).
              fst (snd e) = fst (snd (hd (reported nprocesses error_queue))))"
  shows "spawn nprocesses error_queue =
           Raises ''BundledErrors'' (concat (map describe (reported nprocesses error_queue)))"
proof -
  note sc = spawn_cases [OF assms(1), unfolded Let_def]
  from assms(2) have ne: "reported nprocesses error_queue \<noteq> []" by auto
  show ?thesis unfolding sc if_not_P [OF ne] if_not_P [OF assms(2)] by (rule refl)
qed

lemma spawn_same_class:
  assumes "nprocesses \<le> length error_queue"
    and "reported nprocesses error_queue \<noteq> []"
    and "\<forall>e\<in>set (reported nprocesses error_queue). fst (snd e) = c"
  shows "spawn nprocesses error_queue =
           (case init_error c of
              None \<Rightarrow> Raises (class_name c) (concat (map describe (reported nprocesses error_queue)))
            | Some (k, text) \<Rightarrow> Raises k text)"
proof -
  note sc = spawn_cases [OF assms(1), unfolded Let_def]
  from assms(2,3) have h: "fst (snd (hd (reported nprocesses error_queue))) = c" by simp
  show ?thesis
    unfolding sc if_not_P [OF assms(2)] h if_P [OF assms(3)] raise_same_type_def by (rule refl)
qed

text \<open>
  Claim C7 says that, when every reported exception has the same class, \<open>spawn\<close> raises
  an error of that class with the concatenated descriptions. The code breaks this for a
  class whose constructor does not take one string: with two workers that both report a
  \<open>UnicodeDecodeError\<close>, building the error to raise fails, and \<open>spawn\<close> raises the
  TypeError of that call, without the descriptions. (For classes that can be built from
  one string, and for differing classes, the claim holds: \<open>spawn_same_class\<close> and
  \<open>spawn_bundles\<close>.)
\<close>

theorem spawn_same_class_TypeError:
  "spawn 2 [(0, Exception UnicodeDecodeError ''bad byte''),
            (1, Exception UnicodeDecodeError ''bad start'')]
     = Raises ''TypeError'' ''function takes exactly 5 arguments (1 given)''"
  by code_simp

lemma spawn_same_class_example:
  "spawn 2 [(0, Exception RuntimeError ''boom''), (1, Exception RuntimeError ''bang'')]
     = Raises ''RuntimeError'' ''Process 0 raised error boom. Process 1 raised error bang. ''"
  by code_simp




section \<open>Properties of reset_job_folder\<close>

lemma isfile_os_remove: "isfile (os_remove n d) m \<longleftrightarrow> isfile d m \<and> m \<noteq> n"
  by (auto simp: isfile_def os_remove_def)

lemma map_of_os_remove: "m \<noteq> n \<Longrightarrow> map_of (os_remove n d) m = map_of d m"
  by (induction d) (auto simp: os_remove_def)

lemma isfile_remove_each:
  "isfile (remove_each ns d) m \<longleftrightarrow> isfile d m \<and> m \<notin> set ns"
  by (induction ns arbitrary: d) (auto simp: isfile_os_remove)

lemma map_of_remove_each:
  "m \<notin> set ns \<Longrightarrow> map_of (remove_each ns d) m = map_of d m"
  by (induction ns arbitrary: d) (auto simp: map_of_os_remove)

lemma isfile_remove_markers:
  "isfile (remove_markers fl d) m \<longleftrightarrow> isfile d m \<and> m \<notin> (\<Union>f\<in>set fl. set (markers f))"
  by (induction fl arbitrary: d) (auto simp: isfile_remove_each)

lemma map_of_remove_markers:
  "m \<notin> (\<Union>f\<in>set fl. set (markers f)) \<Longrightarrow> map_of (remove_markers fl d) m = map_of d m"
  by (induction fl arbitrary: d) (auto simp: map_of_remove_each)

lemma map_fst_overwrite:
  "map fst (map (\<lambda>entry. if fst entry = n then (n, c) else entry) d) = map fst d"
  by (induction d) simp_all

lemma isfile_write_file: "isfile (write_file n c d) m \<longleftrightarrow> isfile d m \<or> m = n"
proof (cases "isfile d n")
  case True
  then have "write_file n c d = map (\<lambda>entry. if fst entry = n then (n, c) else entry) d"
    by (simp add: write_file_def)
  with True show ?thesis
    unfolding isfile_def by (auto simp only: map_fst_overwrite)
next
  case False
  then show ?thesis by (auto simp: write_file_def isfile_def)
qed

lemma map_of_write_file:
  "map_of (write_file n c d) m = (if m = n then Some c else map_of d m)"
proof -
  have a: "map_of (map (\<lambda>entry. if fst entry = n then (n, c) else entry) d) m
          = (if m = n then (if n \<in> fst ` set d then Some c else None) else map_of d m)"
  proof (induction d)
    case Nil
    then show ?case by simp
  next
    case (Cons e d)
    then show ?case by (cases e) (force simp: image_iff)
  qed
  have b: "n \<notin> fst ` set d \<Longrightarrow> map_of d n = None"
    by (simp add: map_of_eq_None_iff)
  show ?thesis
  proof (cases "isfile d n")
    case True
    then have "n \<in> fst ` set d" by (simp add: isfile_def)
    with a True show ?thesis by (simp add: write_file_def)
  next
    case False
    then have "map_of d n = None" using b by (simp add: isfile_def)
    with False show ?thesis
      by (simp add: write_file_def map_add_def split: option.splits)
  qed
qed


lemma rewrite_jobs_filter:
  "rewrite_jobs rl ls = [l \<leftarrow> map strip ls. l \<notin> set rl]"
  by (induction ls) (simp_all add: Let_def)

lemma ustr_lits:
  "ustr ''.res'' = [46, 114, 101, 115]" "ustr ''.'' = [46]"
  "ustr ''res.lock'' = [114, 101, 115, 46, 108, 111, 99, 107]" "ustr ''kill'' = [107, 105, 108, 108]"
  "ustr ''jobs.txt'' = [106, 111, 98, 115, 46, 116, 120, 116]"
  by code_simp+

lemma markers_last: "m \<in> set (markers f) \<Longrightarrow> last m = 107 \<or> last m = 108"
  by (auto simp: markers_def Let_def ustr_lits)

lemma jobs_not_marker: "ustr ''jobs.txt'' \<notin> set (markers f)"
  using markers_last [of "ustr ''jobs.txt''" f] by (auto simp: ustr_lits)

lemma res_not_marker: "suffix (ustr ''.res'') n \<Longrightarrow> n \<notin> set (markers f)"
proof
  assume s: "suffix (ustr ''.res'') n" and m: "n \<in> set (markers f)"
  from s obtain r where "n = r @ ustr ''.res''" by (auto simp: suffix_def)
  then have "last n = 115" by (simp add: ustr_lits)
  with markers_last [OF m] show False by simp
qed

lemma no_overlap_res:
  assumes "ys \<noteq> []" and "\<not> prefix (ustr ''.res'') ys"
  shows "\<not> prefix (ustr ''.res'') (ys @ ustr ''.res'')"
proof
  assume "prefix (ustr ''.res'') (ys @ ustr ''.res'')"
  with assms(2) obtain us where us: "ustr ''.res'' = ys @ us" "prefix us (ustr ''.res'')"
    by (auto simp: prefix_append)
  from us(1) assms(1)
  have "us = [114, 101, 115] \<or> us = [101, 115] \<or> us = [115] \<or> us = []"
    unfolding ustr_lits by (auto simp: Cons_eq_append_conv)
  with us assms(2) show False unfolding ustr_lits by auto
qed

lemma py_replace_skip:
  "s \<noteq> [] \<Longrightarrow> old \<noteq> [] \<Longrightarrow> \<not> prefix old s \<Longrightarrow>
     py_replace old new s = hd s # py_replace old new (tl s)"
  by (subst py_replace.simps) simp

lemma py_replace_res_suffix:
  "\<not> sublist (ustr ''.res'') r \<Longrightarrow> py_replace (ustr ''.res'') [] (r @ ustr ''.res'') = r"
proof (induction r)
  case Nil
  have "py_replace (ustr ''.res'') [] [] = []" by (subst py_replace.simps) simp
  then show ?case by (subst py_replace.simps) (simp add: ustr_lits)
next
  case (Cons c r)
  from Cons.prems have np: "\<not> prefix (ustr ''.res'') (c # r)"
    using prefix_imp_sublist by blast
  from Cons.prems have ns: "\<not> sublist (ustr ''.res'') r"
    by (auto simp: sublist_Cons_right)
  from no_overlap_res [OF _ np] have "\<not> prefix (ustr ''.res'') ((c # r) @ ustr ''.res'')" by simp
  from py_replace_skip [OF _ _ this, of "[]"]
  have "py_replace (ustr ''.res'') [] ((c # r) @ ustr ''.res'')
          = c # py_replace (ustr ''.res'') [] (r @ ustr ''.res'')"
    by (simp add: ustr_lits)
  with Cons.IH [OF ns] show ?case by simp
qed

lemma markers_simple:
  "\<not> sublist (ustr ''.res'') r \<Longrightarrow>
     markers (r @ ustr ''.res'') = [r @ ustr ''.res.lock'', r @ ustr ''.kill'']"
proof -
  have l: "ustr ''.'' @ ustr ''res.lock'' = ustr ''.res.lock''" "ustr ''.'' @ ustr ''kill'' = ustr ''.kill''"
    by code_simp+
  assume "\<not> sublist (ustr ''.res'') r"
  then show ?thesis by (simp add: markers_def py_replace_res_suffix l)
qed

lemma dropWhile_id: "xs = [] \<or> \<not> P (hd xs) \<Longrightarrow> dropWhile P xs = xs"
  by (cases xs) auto

lemma hd_dropWhile_not: "dropWhile P xs \<noteq> [] \<Longrightarrow> \<not> P (hd (dropWhile P xs))"
  by (rule hd_dropWhile)

lemma strip_idem: "strip (strip s) = strip s"
proof -
  let ?u = "dropWhile is_space s"
  let ?w = "dropWhile is_space (rev ?u)"
  have t: "strip s = rev ?w" by (simp add: strip_def)
  have w: "?w = [] \<or> \<not> is_space (hd ?w)" using hd_dropWhile [of is_space "rev ?u"] by blast
  have "rev ?w = [] \<or> \<not> is_space (hd (rev ?w))"
  proof (cases "?w = []")
    case True
    then show ?thesis by simp
  next
    case False
    obtain k where k: "rev ?u = takeWhile is_space (rev ?u) @ ?w" by simp
    then have "?u = rev ?w @ rev (takeWhile is_space (rev ?u))"
      by (metis rev_append rev_rev_ident)
    with False have "hd ?u = hd (rev ?w)" by (metis hd_append2 rev_is_Nil_conv)
    moreover have "?u \<noteq> []"
    proof
      assume "?u = []"
      then have "?w = []" by (simp only: rev.simps dropWhile.simps)
      with False show False by (rule notE)
    qed
    then have "\<not> is_space (hd ?u)" by (rule hd_dropWhile)
    ultimately show ?thesis by simp
  qed
  then have a: "dropWhile is_space (rev ?w) = rev ?w" by (rule dropWhile_id)
  from w have b: "dropWhile is_space ?w = ?w" by (rule dropWhile_id)
  show ?thesis unfolding t by (simp add: strip_def a b)
qed


lemma jobs_text_kept:
  "read_file (remove_markers (glob_res d) d) (ustr ''jobs.txt'') = read_file d (ustr ''jobs.txt'')"
proof -
  have nm: "ustr ''jobs.txt'' \<notin> (\<Union>f\<in>set (glob_res d). set (markers f))"
    using jobs_not_marker by simp
  show ?thesis unfolding read_file_def map_of_remove_markers [OF nm] by (rule refl)
qed

lemma read_file_reset:
  assumes "isfile d (ustr ''jobs.txt'')"
  shows "read_file (fst (reset_job_folder d)) (ustr ''jobs.txt'') = concat (written d)"
proof -
  let ?d1 = "remove_markers (glob_res d) d"
  have nm: "ustr ''jobs.txt'' \<notin> (\<Union>f\<in>set (glob_res d). set (markers f))"
    using jobs_not_marker by simp
  from assms nm have j1: "isfile ?d1 (ustr ''jobs.txt'')"
    by (simp only: isfile_remove_markers simp_thms)
  show ?thesis
    unfolding reset_job_folder_def Let_def fst_conv if_P [OF j1] written_def
    by (simp add: read_file_def map_of_write_file)
qed

lemma written_entries:
  "map strip (written d) = [e \<leftarrow> entries d. e \<notin> set (glob_res d)]"
proof -
  have "written d = [e \<leftarrow> entries d. e \<notin> set (glob_res d)]"
    unfolding written_def jobs_text_kept rewrite_jobs_filter entries_def by (rule refl)
  moreover have "map strip [e \<leftarrow> entries d. e \<notin> set (glob_res d)]
                   = [e \<leftarrow> entries d. e \<notin> set (glob_res d)]"
    by (rule map_idI) (auto simp: entries_def strip_idem)
  ultimately show ?thesis by simp
qed

lemma isfile_reset:
  "isfile (fst (reset_job_folder d)) m
     \<longleftrightarrow> isfile d m \<and> m \<notin> (\<Union>f\<in>set (glob_res d). set (markers f))"
proof -
  let ?d1 = "remove_markers (glob_res d) d"
  show ?thesis
  proof (cases "isfile ?d1 (ustr ''jobs.txt'')")
    case True
    then show ?thesis
      unfolding reset_job_folder_def Let_def fst_conv if_P [OF True] isfile_write_file
      by (auto simp: isfile_remove_markers)
  next
    case False
    then show ?thesis
      unfolding reset_job_folder_def Let_def fst_conv if_not_P [OF False]
      by (simp add: isfile_remove_markers)
  qed
qed

lemma glob_res_isfile:
  "f \<in> set (glob_res d) \<Longrightarrow> isfile d f \<and> suffix (ustr ''.res'') f"
  by (auto simp: glob_res_def isfile_def)

text \<open>
  Claim C1, amended. For every directory, \<open>reset_job_folder\<close> returns the number of
  result files of the directory; it keeps every result file and removes, for every
  result file, the lock file and the kill marker that go with it (for a name \<open>r.res\<close>
  with no other \<open>.res\<close> in it these are \<open>r.res.lock\<close> and \<open>r.kill\<close>), and no other file; and
  when \<open>jobs.txt\<close> exists, its new text is made of the texts written back, which are, up
  to the whitespace around them and in order, the entries of the ledger that do not name
  a current result file: an entry that names a result file still present is excluded,
  and one text is written for every other entry. Nothing is said here about what
  separates the texts written.
\<close>

theorem reset_job_folder_effect:
  "snd (reset_job_folder d) = length (glob_res d)
   \<and> (\<forall>f\<in>set (glob_res d).
        isfile (fst (reset_job_folder d)) f
        \<and> (\<forall>m\<in>set (markers f). \<not> isfile (fst (reset_job_folder d)) m))
   \<and> (\<forall>r. \<not> sublist (ustr ''.res'') r \<longrightarrow>
          markers (r @ ustr ''.res'') = [r @ ustr ''.res.lock'', r @ ustr ''.kill''])
   \<and> (\<forall>m. isfile (fst (reset_job_folder d)) m
          \<longleftrightarrow> isfile d m \<and> (\<forall>f\<in>set (glob_res d). m \<notin> set (markers f)))
   \<and> (isfile d (ustr ''jobs.txt'') \<longrightarrow>
        read_file (fst (reset_job_folder d)) (ustr ''jobs.txt'') = concat (written d)
        \<and> map strip (written d) = [e \<leftarrow> entries d. e \<notin> set (glob_res d)])"
proof -
  have a: "snd (reset_job_folder d) = length (glob_res d)"
    by (simp add: reset_job_folder_def Let_def)
  have b: "isfile (fst (reset_job_folder d)) f
        \<and> (\<forall>m\<in>set (markers f). \<not> isfile (fst (reset_job_folder d)) m)"
    if "f \<in> set (glob_res d)" for f
    using that glob_res_isfile [OF that] res_not_marker [of f]
    by (auto simp: isfile_reset)
  have c: "\<forall>r. \<not> sublist (ustr ''.res'') r \<longrightarrow>
          markers (r @ ustr ''.res'') = [r @ ustr ''.res.lock'', r @ ustr ''.kill'']"
    by (simp add: markers_simple)
  have e: "\<forall>m. isfile (fst (reset_job_folder d)) m
          \<longleftrightarrow> isfile d m \<and> (\<forall>f\<in>set (glob_res d). m \<notin> set (markers f))"
    by (simp add: isfile_reset)
  from a b c e read_file_reset written_entries show ?thesis by blast
qed

text \<open>
  Claim C1 as stated fails on the ledger: with \<open>a.res\<close> present and \<open>b.res\<close> absent, the
  entry \<open>a.res\<close> is the one that is excluded and the entry \<open>b.res\<close> the one that is
  written back.
\<close>

theorem reset_job_folder_excludes_present:
  "reset_job_folder
     [(ustr ''a.res'', ustr ''TITL a''), (ustr ''a.res.lock'', []),
      (ustr ''jobs.txt'', ustr ''a.res'' @ [10] @ ustr ''b.res'' @ [10])]
   = ([(ustr ''a.res'', ustr ''TITL a''), (ustr ''jobs.txt'', ustr ''b.res'')], 1)"
proof -
  let ?d = "[(ustr ''a.res'', ustr ''TITL a''), (ustr ''a.res.lock'', []),
      (ustr ''jobs.txt'', ustr ''a.res'' @ [10] @ ustr ''b.res'' @ [10])]"
  have g: "glob_res ?d = [ustr ''a.res'']" by code_simp
  have d1: "remove_markers [ustr ''a.res''] ?d
      = [(ustr ''a.res'', ustr ''TITL a''),
         (ustr ''jobs.txt'', ustr ''a.res'' @ [10] @ ustr ''b.res'' @ [10])]" by code_simp
  have j: "isfile [(ustr ''a.res'', ustr ''TITL a''),
         (ustr ''jobs.txt'', ustr ''a.res'' @ [10] @ ustr ''b.res'' @ [10])] (ustr ''jobs.txt'')"
    by code_simp
  have r: "readlines (read_file [(ustr ''a.res'', ustr ''TITL a''),
         (ustr ''jobs.txt'', ustr ''a.res'' @ [10] @ ustr ''b.res'' @ [10])] (ustr ''jobs.txt''))
      = [ustr ''a.res'' @ [10], ustr ''b.res'' @ [10]]" by code_simp
  have s: "strip (ustr ''a.res'' @ [10]) = ustr ''a.res''" "strip (ustr ''b.res'' @ [10]) = ustr ''b.res''"
    by (simp_all add: strip_def is_space_def ustr_def)
  have ne: "ustr ''b.res'' \<noteq> ustr ''a.res''" by (simp add: ustr_def)
  have w: "rewrite_jobs [ustr ''a.res''] [ustr ''a.res'' @ [10], ustr ''b.res'' @ [10]] = [ustr ''b.res'']"
    by (simp add: s ne Let_def)
  have wf: "write_file (ustr ''jobs.txt'') (ustr ''b.res'') [(ustr ''a.res'', ustr ''TITL a''),
         (ustr ''jobs.txt'', ustr ''a.res'' @ [10] @ ustr ''b.res'' @ [10])]
       = [(ustr ''a.res'', ustr ''TITL a''), (ustr ''jobs.txt'', ustr ''b.res'')]"
    by code_simp
  have c: "concat [ustr ''b.res''] = ustr ''b.res''" by simp
  show ?thesis
    unfolding reset_job_folder_def Let_def g d1 if_P [OF j] r w c wf by simp
qed

theorem reset_job_folder_effect_witness:
  "snd (reset_job_folder
     [(ustr ''a.res'', ustr ''TITL a''), (ustr ''a.res.lock'', []), (ustr ''a.kill'', []),
      (ustr ''jobs.txt'', ustr ''a.res'' @ [10] @ ustr ''b.res'' @ [13, 10] @ ustr ''c.res'')]) = 1
   \<and> isfile (fst (reset_job_folder
     [(ustr ''a.res'', ustr ''TITL a''), (ustr ''a.res.lock'', []), (ustr ''a.kill'', []),
      (ustr ''jobs.txt'', ustr ''a.res'' @ [10] @ ustr ''b.res'' @ [13, 10] @ ustr ''c.res'')]))
       (ustr ''a.res'')
   \<and> \<not> isfile (fst (reset_job_folder
     [(ustr ''a.res'', ustr ''TITL a''), (ustr ''a.res.lock'', []), (ustr ''a.kill'', []),
      (ustr ''jobs.txt'', ustr ''a.res'' @ [10] @ ustr ''b.res'' @ [13, 10] @ ustr ''c.res'')]))
       (ustr ''a.res.lock'')
   \<and> \<not> isfile (fst (reset_job_folder
     [(ustr ''a.res'', ustr ''TITL a''), (ustr ''a.res.lock'', []), (ustr ''a.kill'', []),
      (ustr ''jobs.txt'', ustr ''a.res'' @ [10] @ ustr ''b.res'' @ [13, 10] @ ustr ''c.res'')]))
       (ustr ''a.kill'')
   \<and> map strip (written
     [(ustr ''a.res'', ustr ''TITL a''), (ustr ''a.res.lock'', []), (ustr ''a.kill'', []),
      (ustr ''jobs.txt'', ustr ''a.res'' @ [10] @ ustr ''b.res'' @ [13, 10] @ ustr ''c.res'')])
       = [ustr ''b.res'', ustr ''c.res'']"
proof -
  let ?d = "[(ustr ''a.res'', ustr ''TITL a''), (ustr ''a.res.lock'', []), (ustr ''a.kill'', []),
      (ustr ''jobs.txt'', ustr ''a.res'' @ [10] @ ustr ''b.res'' @ [13, 10] @ ustr ''c.res'')]"
  have g: "glob_res ?d = [ustr ''a.res'']" by code_simp
  have mk: "markers (ustr ''a.res'') = [ustr ''a.res.lock'', ustr ''a.kill'']" by code_simp
  have j: "isfile ?d (ustr ''jobs.txt'')" by code_simp
  have rd: "readlines (read_file ?d (ustr ''jobs.txt''))
              = [ustr ''a.res'' @ [10], ustr ''b.res'' @ [10], ustr ''c.res'']"
    by code_simp
  have s: "strip (ustr ''a.res'' @ [10]) = ustr ''a.res''"
    "strip (ustr ''b.res'' @ [10]) = ustr ''b.res''" "strip (ustr ''c.res'') = ustr ''c.res''"
    by (simp_all add: strip_def is_space_def ustr_def)
  have en: "entries ?d = [ustr ''a.res'', ustr ''b.res'', ustr ''c.res'']"
    unfolding entries_def rd by (simp add: s)
  have rl: "[e \<leftarrow> entries ?d. e \<notin> set (glob_res ?d)] = [ustr ''b.res'', ustr ''c.res'']"
    unfolding en g by (simp add: ustr_def)
  note t = reset_job_folder_effect [of ?d]
  from t have "snd (reset_job_folder ?d) = length (glob_res ?d)" by (rule conjunct1)
  then have 1: "snd (reset_job_folder ?d) = 1" unfolding g by simp
  from t have "\<forall>f\<in>set (glob_res ?d). isfile (fst (reset_job_folder ?d)) f
        \<and> (\<forall>m\<in>set (markers f). \<not> isfile (fst (reset_job_folder ?d)) m)"
    by blast
  then have 2: "isfile (fst (reset_job_folder ?d)) (ustr ''a.res'')
        \<and> (\<forall>m\<in>set (markers (ustr ''a.res'')). \<not> isfile (fst (reset_job_folder ?d)) m)"
    unfolding g by simp
  then have 3: "\<not> isfile (fst (reset_job_folder ?d)) (ustr ''a.res.lock'')
      \<and> \<not> isfile (fst (reset_job_folder ?d)) (ustr ''a.kill'')"
    unfolding mk by simp
  from t j have "map strip (written ?d) = [e \<leftarrow> entries ?d. e \<notin> set (glob_res ?d)]"
    by blast
  then have 4: "map strip (written ?d) = [ustr ''b.res'', ustr ''c.res'']"
    unfolding rl .
  from 1 2 3 4 show ?thesis by blast
qed


end
